theory Spec2Isabelle
  imports Main "HOL-Library.AList"
begin

section \<open>Media Triage: a shallow embedding of triage.py\<close>

text \<open>
  The theory follows \<^verbatim>\<open>src/triage.py\<close> function by function. Python strings are
  \<open>string\<close> (lists of 8-bit characters, read as the ASCII range of \<^verbatim>\<open>str\<close>); the
  process-wide list \<^verbatim>\<open>folders_marked_for_deletion\<close> and everything the program
  prints or logs live in a \<open>world\<close> record that every function takes and returns;
  whatever the operating system decides (drive types, directory listings, I/O faults,
  random draws) is read from a \<open>host\<close> record. The platform is Windows, as the
  source's use of \<^verbatim>\<open>windll\<close> fixes it: the path separator is the backslash.

  Three stores stand for the file system, one for each way the program touches it:
  the descriptor files \<^verbatim>\<open>drive.json\<close>, kept as the JSON documents they hold; the
  directory tree of each volume, which the import walk lists and never changes (the
  backup is a dry run); and the disk of the deletion pipeline, a map from paths to
  directories and text files, on which \<^verbatim>\<open>shutil.rmtree\<close> removes whole subtrees.
  Paths are compared as strings.

  Output is recorded, not rendered: a message is the list of the pieces of its f-string,
  the arrows in the debug messages are written \<^verbatim>\<open>->\<close>, and the progress bar, whose
  width \<^verbatim>\<open>int((i / total) * width)\<close> is a floating-point computation, is recorded by
  its arguments. Printing and appending to the debug log are taken never to fail, and
  \<^verbatim>\<open>time.sleep\<close> has no counterpart.
\<close>

subsection \<open>Strings and paths (Python's str and ntpath)\<close>

type_synonym path = string

definition sep :: char where
  "sep = CHR 0x5C"

definition altsep :: char where
  "altsep = CHR ''/''"

definition extsep :: char where
  "extsep = CHR ''.''"

definition colon :: char where
  "colon = CHR '':''"

definition ascii_uppercase :: string where
  "ascii_uppercase = ''ABCDEFGHIJKLMNOPQRSTUVWXYZ''"

definition ascii_lowercase :: string where
  "ascii_lowercase = ''abcdefghijklmnopqrstuvwxyz''"

text \<open>\<^verbatim>\<open>str.lower\<close> on the ASCII range: the 26 capital letters are mapped, every other
  character is kept.\<close>

definition lower_char :: "char \<Rightarrow> char" where
  "lower_char c =
     (case map_of (zip ascii_uppercase ascii_lowercase) c of Some d \<Rightarrow> d | None \<Rightarrow> c)"

definition lower :: "string \<Rightarrow> string" where
  "lower s = map lower_char s"

text \<open>\<^verbatim>\<open>str.rfind\<close> for a single character: the highest index holding \<open>c\<close>, or \<open>-1\<close>.\<close>

fun rfind :: "string \<Rightarrow> char \<Rightarrow> int" where
  "rfind [] c = - 1"
| "rfind (x # xs) c =
     (let r = rfind xs c in if 0 \<le> r then r + 1 else if x = c then 0 else - 1)"

text \<open>
  \<^verbatim>\<open>os.path.splitext\<close> is \<^verbatim>\<open>genericpath._splitext(p, sep, altsep, extsep)\<close>:
  \<^verbatim>\<open>
    sepIndex = max(p.rfind(sep), p.rfind(altsep))
    dotIndex = p.rfind(extsep)
    if dotIndex > sepIndex:
        filenameIndex = sepIndex + 1
        while filenameIndex < dotIndex:
            if p[filenameIndex:filenameIndex+1] != extsep:
                return p[:dotIndex], p[dotIndex:]
            filenameIndex += 1
    return p, p[:0]
  \<close>
  The loop skips the leading dots of the last component; \<open>skip_leading_dots\<close> is that
  loop, returning whether it left through the inner \<^verbatim>\<open>return\<close>.
\<close>

function skip_leading_dots :: "string \<Rightarrow> nat \<Rightarrow> nat \<Rightarrow> bool" where
  "skip_leading_dots p filenameIndex dotIndex =
     (if filenameIndex < dotIndex
      then (if p ! filenameIndex \<noteq> extsep then True
            else skip_leading_dots p (Suc filenameIndex) dotIndex)
      else False)"
  by pat_completeness auto
termination
  by (relation "measure (\<lambda>(p, filenameIndex, dotIndex). dotIndex - filenameIndex)") auto

declare skip_leading_dots.simps [simp del]

definition splitext :: "string \<Rightarrow> string \<times> string" where
  "splitext p =
     (let sepIndex = max (rfind p sep) (rfind p altsep);
          dotIndex = rfind p extsep
      in if sepIndex < dotIndex \<and> skip_leading_dots p (nat (sepIndex + 1)) (nat dotIndex)
         then (take (nat dotIndex) p, drop (nat dotIndex) p)
         else (p, []))"

text \<open>\<^verbatim>\<open>os.path.join(path, name)\<close> for a \<open>name\<close> that is a plain component (no drive,
  no separator), which is all the program ever joins: a separator is inserted unless
  \<open>path\<close> is empty or already ends in a separator or in the drive colon.\<close>

definition join :: "path \<Rightarrow> string \<Rightarrow> path" where
  "join p n =
     (if p = [] \<or> last p = sep \<or> last p = altsep \<or> (length p = 2 \<and> last p = colon)
      then p @ n else p @ [sep] @ n)"

text \<open>
  \<^verbatim>\<open>os.path.normpath\<close> (ntpath) for drive-letter and drive-less paths, the ones the
  program builds: forward slashes become backslashes, a drive \<^verbatim>\<open>X:\<close> and a leading
  separator form the prefix, and of the remaining components the empty ones and
  \<^verbatim>\<open>.\<close> are dropped and \<^verbatim>\<open>..\<close> cancels its predecessor. The case of letters
  is left alone (that is \<^verbatim>\<open>normcase\<close>, which the program does not call).
\<close>

fun split_sep :: "string \<Rightarrow> string list" where
  "split_sep [] = [[]]"
| "split_sep (c # cs) =
     (if c = sep then [] # split_sep cs
      else (case split_sep cs of [] \<Rightarrow> [[c]] | x # xs \<Rightarrow> (c # x) # xs))"

fun join_sep :: "string list \<Rightarrow> string" where
  "join_sep [] = []"
| "join_sep [x] = x"
| "join_sep (x # y # ys) = x @ [sep] @ join_sep (y # ys)"

definition norm_step :: "bool \<Rightarrow> string list \<Rightarrow> string \<Rightarrow> string list" where
  "norm_step rooted comps c =
     (if c = [] \<or> c = ''.'' then comps
      else if c = ''..'' then
        (if comps \<noteq> [] \<and> last comps \<noteq> ''..'' then butlast comps
         else if comps = [] \<and> rooted then comps
         else comps @ [c])
      else comps @ [c])"

definition normpath :: "path \<Rightarrow> path" where
  "normpath p0 =
     (let p = map (\<lambda>c. if c = altsep then sep else c) p0;
          drive = (if 2 \<le> length p \<and> p ! 1 = colon then take 2 p else []);
          rest = drop (length drive) p;
          rooted = (rest \<noteq> [] \<and> hd rest = sep);
          prefix = (if rooted then drive @ [sep] else drive);
          comps = foldl (norm_step rooted) [] (split_sep (dropWhile (\<lambda>c. c = sep) rest))
      in if prefix = [] \<and> comps = [] then ''.'' else prefix @ join_sep comps)"




subsection \<open>JSON values, the world and the host\<close>

text \<open>A float read by \<^verbatim>\<open>json.load\<close> is kept as the value it denotes (mantissa and
  binary exponent, or one of the three special values); the program never computes with
  it and only tests it for truth.\<close>

datatype pyfloat = Finite int int | Infinite bool | NaN

datatype json =
    JNull
  | JBool bool
  | JInt int
  | JFloat pyfloat
  | JStr string
  | JArr "json list"
  | JObj "(string \<times> json) list"

text \<open>A Python \<^verbatim>\<open>dict\<close> with string keys is an association list in insertion order:
  \<open>map_of d k\<close> is \<^verbatim>\<open>d.get(k)\<close>, \<open>AList.update k v d\<close> is \<^verbatim>\<open>d[k] = v\<close>.\<close>

type_synonym pydict = "(string \<times> json) list"

text \<open>Truth of a value under \<^verbatim>\<open>if\<close>.\<close>

fun truthy :: "json \<Rightarrow> bool" where
  "truthy JNull = False"
| "truthy (JBool b) = b"
| "truthy (JInt n) = (n \<noteq> 0)"
| "truthy (JFloat (Finite m e)) = (m \<noteq> 0)"
| "truthy (JFloat _) = True"
| "truthy (JStr s) = (s \<noteq> [])"
| "truthy (JArr xs) = (xs \<noteq> [])"
| "truthy (JObj d) = (d \<noteq> [])"

text \<open>The pieces of an f-string: literal text, a formatted value, a formatted count.\<close>

datatype frag = S string | V json | N nat

type_synonym message = "frag list"

text \<open>
  Everything the program emits, in order. \<open>Console\<close>, \<open>Debug\<close> and \<open>DeleteLine\<close> are
  the three functions of \<^verbatim>\<open>console.py\<close> (message, level, indent); \<open>Progress\<close> is the
  in-place redraw of the progress bar for item \<open>i\<close> of \<open>total\<close> and
  \<open>ProgressCleanup\<close> the final clearing of its two lines. \<open>FileWritten\<close> records
  that a text file was closed after a complete write, and \<open>Rmtree\<close> that
  \<^verbatim>\<open>shutil.rmtree\<close> was called on a path, with the exception it raised if any.
\<close>

datatype event =
    Console message string nat
  | Debug message
  | DeleteLine path nat
  | Progress nat nat path
  | ProgressCleanup
  | FileWritten path string
  | Rmtree path "string option"

text \<open>A directory entry as \<^verbatim>\<open>os.scandir\<close> reports it, with the listing below a real
  directory (\<open>None\<close> when listing it raises): a regular file, a directory, a link to a
  directory, or something that is neither file nor directory.\<close>

datatype entry =
    File string
  | Dir string "entry list option"
  | DirLink string
  | Other string

fun entry_name :: "entry \<Rightarrow> string" where
  "entry_name (File n) = n"
| "entry_name (Dir n sub) = n"
| "entry_name (DirLink n) = n"
| "entry_name (Other n) = n"

fun is_dir :: "entry \<Rightarrow> bool" where
  "is_dir (Dir n sub) = True"
| "is_dir (DirLink n) = True"
| "is_dir _ = False"

fun is_file :: "entry \<Rightarrow> bool" where
  "is_file (File n) = True"
| "is_file _ = False"

text \<open>The content of a \<^verbatim>\<open>drive.json\<close>: the document \<^verbatim>\<open>json.load\<close> returns, or the
  exception that opening or parsing it raises.\<close>

datatype json_file = Document json | Unreadable string

text \<open>A node of the disk the deletion pipeline works on: a directory, or a text file
  with the text that reading it returns.\<close>

datatype node = DirNode | FileNode string

text \<open>How a write can fail: \<^verbatim>\<open>open\<close> raises and the file is untouched, or the write
  raises after the file was truncated and only so many characters reached it.\<close>

datatype write_fault = OpenFails string | WriteFails string nat

datatype error = AttributeError string | OSError string

record world =
  folders_marked_for_deletion :: "path list"
  trace :: "event list"
  descriptors :: "path \<rightharpoonup> json_file"
  disk :: "path \<rightharpoonup> node"
  uuids_drawn :: nat
  randoms_drawn :: nat

text \<open>
  The host: \<open>drive_type\<close> is \<^verbatim>\<open>GetDriveTypeW\<close>; \<open>volume\<close> the directory tree
  \<^verbatim>\<open>os.scandir\<close> finds at a mount point; \<open>uuid_source\<close> and \<open>random_source\<close> the
  streams \<^verbatim>\<open>uuid4\<close> and \<^verbatim>\<open>random\<close> draw from; \<open>json_write_fault\<close> and
  \<open>text_write_fault\<close> say which writes fail and how, \<open>text_read_fault\<close> which reads
  raise; \<open>rmtree_fault p = Some (cause, gone)\<close> makes \<^verbatim>\<open>shutil.rmtree(p)\<close> raise
  \<open>cause\<close> after having removed the nodes below \<open>p\<close> that satisfy \<open>gone\<close>;
  \<open>scandir_fault p\<close> is the exception of the second listing of \<open>p\<close>, the one
  \<^verbatim>\<open>try_remove_folder\<close> makes of a directory the walk has already listed.
\<close>

record host =
  drive_type :: "path \<Rightarrow> nat"
  volume :: "path \<Rightarrow> entry list option"
  uuid_source :: "nat \<Rightarrow> string"
  random_source :: "nat \<Rightarrow> nat"
  json_write_fault :: "path \<Rightarrow> write_fault option"
  text_write_fault :: "path \<Rightarrow> write_fault option"
  text_read_fault :: "path \<Rightarrow> string option"
  rmtree_fault :: "path \<Rightarrow> (string \<times> (path \<Rightarrow> bool)) option"
  scandir_fault :: "path \<Rightarrow> string option"

subsection \<open>console.py\<close>

definition write_console :: "message \<Rightarrow> string \<Rightarrow> nat \<Rightarrow> world \<Rightarrow> world" where
  "write_console message level indent w = w\<lparr>trace := trace w @ [Console message level indent]\<rparr>"

definition write_debug :: "message \<Rightarrow> world \<Rightarrow> world" where
  "write_debug message w = w\<lparr>trace := trace w @ [Debug message]\<rparr>"

definition write_delete_line :: "path \<Rightarrow> nat \<Rightarrow> world \<Rightarrow> world" where
  "write_delete_line folder_path indent w = w\<lparr>trace := trace w @ [DeleteLine folder_path indent]\<rparr>"

subsection \<open>The media classifier and the purge marker\<close>

text \<open>The list \<^verbatim>\<open>media_exts\<close> is written out twice in the source, once in
  \<^verbatim>\<open>try_remove_folder\<close> (line 161) and once in \<^verbatim>\<open>import_from_external_drives\<close>
  (line 184); each literal gets its own constant.\<close>

definition try_remove_folder_media_exts :: "string list" where
  "try_remove_folder_media_exts =
     [''.jpg'', ''.jpeg'', ''.png'', ''.gif'', ''.bmp'', ''.heic'', ''.mp4'', ''.mov'', ''.avi'', ''.mkv'']"

definition import_media_exts :: "string list" where
  "import_media_exts =
     [''.jpg'', ''.jpeg'', ''.png'', ''.gif'', ''.bmp'', ''.heic'', ''.mp4'', ''.mov'', ''.avi'', ''.mkv'']"

text \<open>The test \<^verbatim>\<open>os.path.splitext(name)[1].lower() in media_exts\<close>, as each of the two
  functions makes it.\<close>

definition purge_is_media :: "string \<Rightarrow> bool" where
  "purge_is_media name \<longleftrightarrow> lower (snd (splitext name)) \<in> set try_remove_folder_media_exts"

definition import_is_media :: "string \<Rightarrow> bool" where
  "import_is_media name \<longleftrightarrow> lower (snd (splitext name)) \<in> set import_media_exts"

text \<open>The loop of \<^verbatim>\<open>try_remove_folder\<close> over the entries (lines 169 to 175), threading
  the two flags \<open>(has_media, has_subfolders)\<close>.\<close>

fun scan_entries :: "entry list \<Rightarrow> bool \<times> bool \<Rightarrow> bool \<times> bool" where
  "scan_entries [] flags = flags"
| "scan_entries (e # es) (has_media, has_subfolders) =
     scan_entries es
       (if is_dir e then (has_media, True)
        else if is_file e then
          (if purge_is_media (entry_name e) then (True, has_subfolders)
           else (has_media, has_subfolders))
        else (has_media, has_subfolders))"

text \<open>\<^verbatim>\<open>try_remove_folder(folder_path, drive_info)\<close>; \<open>scan\<close> is what
  \<^verbatim>\<open>list(os.scandir(folder_path))\<close> returns, \<open>Inl\<close> the exception it raises. The
  parameter \<^verbatim>\<open>drive_info\<close> is not used by the body and is left out.\<close>

definition try_remove_folder :: "string + entry list \<Rightarrow> path \<Rightarrow> world \<Rightarrow> world" where
  "try_remove_folder scan folder_path w0 =
     (let w = write_debug [S ''[CALL] try_remove_folder -> '', S folder_path] w0
      in case scan of
           Inl e \<Rightarrow> write_debug [S ''[ERROR] Cannot access '', S folder_path, S '': '', S e] w
         | Inr entries \<Rightarrow>
             (let (has_media, has_subfolders) = scan_entries entries (False, False)
              in if \<not> has_media \<and> \<not> has_subfolders
                 then write_debug [S ''[MARKED] '', S folder_path, S '' marked for deletion'']
                        (write_delete_line folder_path 2
                          (w\<lparr>folders_marked_for_deletion :=
                               folders_marked_for_deletion w @ [folder_path]\<rparr>))
                 else w))"

subsection \<open>The import walker\<close>

text \<open>An entry of \<^verbatim>\<open>valid_drives\<close>: the dictionary with the keys \<^verbatim>\<open>path\<close>,
  \<^verbatim>\<open>id\<close>, \<^verbatim>\<open>name\<close> and \<^verbatim>\<open>json\<close>.\<close>

record drive =
  drive_path :: path
  drive_id :: json
  drive_name :: json
  drive_json :: pydict

definition backup_media_file :: "path \<Rightarrow> drive \<Rightarrow> world \<Rightarrow> world" where
  "backup_media_file file_path drive_info w =
     write_console [S ''[DRY RUN] Would backup: '', S file_path, S '' from '',
                    V (drive_name drive_info)] ''INFO'' 2 w"

text \<open>The loop over \<^verbatim>\<open>files\<close> (lines 197 to 201).\<close>

fun import_files :: "drive \<Rightarrow> path \<Rightarrow> string list \<Rightarrow> world \<Rightarrow> world" where
  "import_files drive root [] w = w"
| "import_files drive root (file # files) w =
     import_files drive root files
       (if import_is_media file then backup_media_file (join root file) drive w else w)"

text \<open>
  The body of the loop over \<^verbatim>\<open>os.walk(root_path)\<close> for one triple
  \<^verbatim>\<open>(root, dirs, files)\<close> (lines 197 to 215). \<^verbatim>\<open>os.walk\<close> puts the names of the
  entries that are not directories into \<^verbatim>\<open>files\<close>.
\<close>

definition import_visit ::
  "host \<Rightarrow> drive \<Rightarrow> json \<Rightarrow> path \<Rightarrow> path \<Rightarrow> entry list \<Rightarrow> world \<Rightarrow> world" where
  "import_visit h drive purge root_path root entries w0 =
     (let files = map entry_name (filter (\<lambda>e. \<not> is_dir e) entries);
          w1 = import_files drive root files w0;
          w2 = write_debug [S ''[BEFORE PURGE] Purge is active in '', S root] w1;
          w3 = write_debug [S ''[PURGE] =  '', V purge] w2
      in if truthy purge then
           (let w4 = write_debug [S ''[AFTER PURGE] Purge is active in '', S root] w3;
                w5 = write_debug [S ''CHECK: comparing root='', S root,
                                  S '' vs root_path='', S root_path] w4
            in if normpath root \<noteq> normpath root_path
               then try_remove_folder
                      (case scandir_fault h root of Some e \<Rightarrow> Inl e | None \<Rightarrow> Inr entries)
                      root w5
               else write_debug [S ''PATHS MATCH -> skipping '', S root] w5)
         else w3)"

text \<open>
  \<^verbatim>\<open>os.walk\<close>, top-down, with the loop body run at each directory it yields: a
  directory whose listing raises is passed over in silence, the body runs on a listed
  directory before the walk descends, and the walk descends into the real
  subdirectories in listing order, not into links. Nothing that the loop body calls
  inside its \<^verbatim>\<open>try\<close> (lines 209 to 215) raises, so the handler of line 214 has no
  branch.
\<close>

fun walk ::
  "host \<Rightarrow> drive \<Rightarrow> json \<Rightarrow> path \<Rightarrow> path \<Rightarrow> entry list option \<Rightarrow> world \<Rightarrow> world" where
  "walk h drive purge root_path root None w = w"
| "walk h drive purge root_path root (Some entries) w =
     fold (\<lambda>e w'. case e of
                     Dir n sub \<Rightarrow> walk h drive purge root_path (join root n) sub w'
                   | _ \<Rightarrow> w')
          entries
          (import_visit h drive purge root_path root entries w)"

text \<open>The body of the loop over \<^verbatim>\<open>drives\<close> (lines 187 to 215).\<close>

definition import_drive :: "host \<Rightarrow> drive \<Rightarrow> world \<Rightarrow> world" where
  "import_drive h drive w0 =
     (let root_path = drive_path drive;
          json_data = drive_json drive;
          purge = (case map_of json_data ''purge'' of Some v \<Rightarrow> v | None \<Rightarrow> JBool False);
          w1 = write_debug [S ''[DEBUG CONFIG] drive JSON raw: '', V (JObj json_data)] w0;
          w2 = write_console [S ''Processing drive: '', V (drive_name drive)] ''ACTION'' 1 w1
      in walk h drive purge root_path root_path (volume h root_path) w2)"

definition import_from_external_drives :: "host \<Rightarrow> drive list \<Rightarrow> world \<Rightarrow> world" where
  "import_from_external_drives h drives w =
     fold (import_drive h) drives
       (write_console [S ''Importing from external drives''] ''TITLE'' 0 w)"

subsection \<open>The drive registry\<close>

definition adjectives :: "string list" where
  "adjectives = [''Silver'', ''Crimson'', ''Midnight'', ''Blue'', ''Quiet'', ''Stormy'', ''Velvet'']"

definition animals :: "string list" where
  "animals = [''Falcon'', ''Goose'', ''Panther'', ''Fox'', ''Whale'', ''Wolf'', ''Jackal'']"

text \<open>\<^verbatim>\<open>random.choice(seq)\<close> with the number drawn for it.\<close>

definition choice :: "'a list \<Rightarrow> nat \<Rightarrow> 'a" where
  "choice xs r = xs ! (r mod length xs)"

definition generate_human_name :: "host \<Rightarrow> world \<Rightarrow> string \<times> world" where
  "generate_human_name h w =
     (choice adjectives (random_source h (randoms_drawn w)) @ '' '' @
      choice animals (random_source h (Suc (randoms_drawn w))),
      w\<lparr>randoms_drawn := randoms_drawn w + 2\<rparr>)"

text \<open>\<^verbatim>\<open>str(uuid4())\<close>.\<close>

definition uuid4 :: "host \<Rightarrow> world \<Rightarrow> string \<times> world" where
  "uuid4 h w = (uuid_source h (uuids_drawn w), w\<lparr>uuids_drawn := Suc (uuids_drawn w)\<rparr>)"

text \<open>
  Lines 133 and 134: \<^verbatim>\<open>open(drive_json_path, "w")\<close> and \<^verbatim>\<open>json.dump\<close>. The result is
  the exception raised, if any, and the world after the attempt. A descriptor file is
  kept as the document it holds, so a completed dump leaves \<open>Document data\<close>, and a
  dump that breaks off after truncating the file leaves an unreadable one.
\<close>

definition dump_descriptor :: "host \<Rightarrow> path \<Rightarrow> json \<Rightarrow> world \<Rightarrow> string option \<times> world" where
  "dump_descriptor h drive_json_path data w =
     (case json_write_fault h drive_json_path of
        None \<Rightarrow> (None, w\<lparr>descriptors := (descriptors w)(drive_json_path \<mapsto> Document data)\<rparr>)
      | Some (OpenFails e) \<Rightarrow> (Some e, w)
      | Some (WriteFails e n) \<Rightarrow>
          (Some e, w\<lparr>descriptors :=
                       (descriptors w)(drive_json_path \<mapsto> Unreadable ''JSONDecodeError'')\<rparr>))"

text \<open>The list comprehension of lines 96 to 98.\<close>

definition removable_drives :: "host \<Rightarrow> path list" where
  "removable_drives h =
     map (\<lambda>letter. [letter, colon, sep])
       (filter (\<lambda>letter. drive_type h [letter, colon, sep] = 2) ascii_uppercase)"

text \<open>
  Lines 121 to 129: the two missing fields are generated, in this order, and
  \<^verbatim>\<open>updated\<close> records whether any was. The result is the dictionary, the flag and the
  world after the draws.
\<close>

definition baptize :: "host \<Rightarrow> pydict \<Rightarrow> world \<Rightarrow> pydict \<times> bool \<times> world" where
  "baptize h data0 w0 =
     (let updated0 = False;
          (data1, updated1, w1) =
            (if ''id'' \<notin> fst ` set data0
             then (let (u, w') = uuid4 h w0
                   in (AList.update ''id'' (JStr u) data0, True, w'))
             else (data0, updated0, w0));
          (data2, updated2, w2) =
            (if ''name'' \<notin> fst ` set data1
             then (let (n, w') = generate_human_name h w1
                   in (AList.update ''name'' (JStr n) data1, True, w'))
             else (data1, updated1, w1))
      in (data2, updated2, w2))"

text \<open>
  The body of the loop over \<^verbatim>\<open>removable_drives\<close> (lines 104 to 149), with
  \<^verbatim>\<open>valid_drives\<close> threaded through. \<^verbatim>\<open>data.get\<close> exists on a dictionary only: any
  other JSON document raises \<^verbatim>\<open>AttributeError\<close> outside every \<^verbatim>\<open>try\<close>.
  \<^verbatim>\<open>data.get("source") is not True\<close> lets exactly the Boolean \<^verbatim>\<open>true\<close> pass.
  After \<open>baptize\<close> both keys are present, so \<^verbatim>\<open>data["id"]\<close> and \<^verbatim>\<open>data["name"]\<close>
  cannot raise; they are read with \<open>lookup\<close>.
\<close>

definition lookup :: "pydict \<Rightarrow> string \<Rightarrow> json" where
  "lookup data k = (case map_of data k of Some v \<Rightarrow> v | None \<Rightarrow> JNull)"

definition detect_drive ::
  "host \<Rightarrow> path \<Rightarrow> drive list \<Rightarrow> world \<Rightarrow> error \<times> world + drive list \<times> world" where
  "detect_drive h drive valid_drives w0 =
     (let w1 = write_console [S ''Found drive: '', S drive] ''INFO'' 1 w0;
          drive_json_path = join drive ''drive.json''
      in case descriptors w1 drive_json_path of
           None \<Rightarrow>
             Inr (valid_drives, write_console [S ''No drive.json found. Skipping.''] ''INFO'' 2 w1)
         | Some file \<Rightarrow>
             (let w2 = write_console [S ''drive.json found''] ''OK'' 2 w1
              in case file of
                   Unreadable e \<Rightarrow>
                     Inr (valid_drives,
                          write_console [S ''Failed to read drive.json: '', S e] ''ERROR'' 2 w2)
                 | Document (JObj data0) \<Rightarrow>
                     if map_of data0 ''source'' \<noteq> Some (JBool True)
                     then Inr (valid_drives,
                               write_console
                                 [S ([CHR 0x27] @ ''source'' @ [CHR 0x27] @
                                     '' is not set to true. Skipping drive.'')]
                                 ''WARN'' 2 w2)
                     else
                       (let (data, updated, w3) = baptize h data0 w2;
                            baptized = [V (lookup data ''name''), S '' ('',
                                        V (lookup data ''id''), S '')''];
                            entry = \<lparr>drive_path = drive, drive_id = lookup data ''id'',
                                     drive_name = lookup data ''name'', drive_json = data\<rparr>
                        in if updated then
                             (case dump_descriptor h drive_json_path (JObj data) w3 of
                                (None, w4) \<Rightarrow>
                                  Inr (valid_drives @ [entry],
                                       write_console (S ''Drive baptized as: '' # baptized) ''OK'' 2 w4)
                              | (Some e, w4) \<Rightarrow>
                                  Inr (valid_drives,
                                       write_console [S ''Failed to write updated drive.json: '', S e]
                                         ''ERROR'' 2 w4))
                           else
                             Inr (valid_drives @ [entry],
                                  write_console (S ''Drive already baptized: '' # baptized) ''INFO'' 2 w3))
                 | Document other \<Rightarrow>
                     Inl (AttributeError ''object has no attribute get'', w2)))"

fun detect_loop ::
  "host \<Rightarrow> path list \<Rightarrow> drive list \<Rightarrow> world \<Rightarrow> error \<times> world + drive list \<times> world" where
  "detect_loop h [] valid_drives w = Inr (valid_drives, w)"
| "detect_loop h (drive # drives) valid_drives w =
     (case detect_drive h drive valid_drives w of
        Inl failure \<Rightarrow> Inl failure
      | Inr (valid_drives', w') \<Rightarrow> detect_loop h drives valid_drives' w')"

definition detect_external_drives :: "host \<Rightarrow> world \<Rightarrow> error \<times> world + drive list \<times> world" where
  "detect_external_drives h w0 =
     (let w1 = write_console [S ''Detecting external sources''] ''TITLE'' 0 w0;
          w2 = (if removable_drives h = []
                then write_console [S ''No removable drives detected.''] ''WARN'' 1 w1
                else w1)
      in detect_loop h (removable_drives h) [] w2)"

subsection \<open>The deletion pipeline\<close>


text \<open>
  The disk maps a path to the node found there. A node \<open>q\<close> lies in the tree of
  \<open>folder\<close> when it is the folder or its path starts with the folder's path and a
  separator (\<open>join folder []\<close> is the folder's path with the separator ensured).
\<close>

definition below :: "path \<Rightarrow> path \<Rightarrow> bool" where
  "below folder q \<longleftrightarrow> q = folder \<or> take (length (join folder [])) q = join folder []"

text \<open>
  \<^verbatim>\<open>shutil.rmtree(folder)\<close>: the exception raised, if any, and the disk afterwards.
  It raises without touching anything when the path is not a directory; otherwise it
  removes the whole tree, unless the host makes it fail part-way.
\<close>

definition rmtree :: "host \<Rightarrow> path \<Rightarrow> (path \<rightharpoonup> node) \<Rightarrow> string option \<times> (path \<rightharpoonup> node)" where
  "rmtree h folder d =
     (case d folder of
        None \<Rightarrow> (Some ''FileNotFoundError'', d)
      | Some (FileNode text) \<Rightarrow> (Some ''NotADirectoryError'', d)
      | Some DirNode \<Rightarrow>
          (case rmtree_fault h folder of
             None \<Rightarrow> (None, \<lambda>q. if below folder q then None else d q)
           | Some (cause, gone) \<Rightarrow>
               (Some cause, \<lambda>q. if below folder q \<and> gone q then None else d q)))"



text \<open>One round of the loop of lines 265 to 286, for item \<open>i\<close> of \<open>n_total\<close> (the source's \<^verbatim>\<open>total\<close>).\<close>

definition delete_folder :: "host \<Rightarrow> nat \<Rightarrow> nat \<Rightarrow> path \<Rightarrow> world \<Rightarrow> world" where
  "delete_folder h n_total i folder w =
     (let (raised, d) = rmtree h folder (disk w);
          w1 = w\<lparr>disk := d, trace := trace w @ [Rmtree folder raised]\<rparr>;
          w2 = (case raised of
                  Some e \<Rightarrow> write_debug [S ''[DELETE ERROR] '', S folder, S '': '', S e] w1
                | None \<Rightarrow> w1)
      in w2\<lparr>trace := trace w2 @ [Progress i n_total folder]\<rparr>)"

fun delete_folders :: "host \<Rightarrow> nat \<Rightarrow> nat \<Rightarrow> path list \<Rightarrow> world \<Rightarrow> world" where
  "delete_folders h n_total i [] w = w"
| "delete_folders h n_total i (folder # folders) w =
     delete_folders h n_total (Suc i) folders (delete_folder h n_total i folder w)"




subsection \<open>Auxiliary notions for stating the properties\<close>

text \<open>The state of the module when it is loaded: nothing marked, nothing emitted.\<close>

definition initial_world :: world where
  "initial_world =
     \<lparr>folders_marked_for_deletion = [], trace = [], descriptors = Map.empty,
      disk = Map.empty, uuids_drawn = 0, randoms_drawn = 0\<rparr>"

text \<open>A host on which nothing fails and nothing is plugged in.\<close>

definition quiet_host :: host where
  "quiet_host =
     \<lparr>drive_type = (\<lambda>p. 1), volume = (\<lambda>p. None),
      uuid_source = (\<lambda>k. ''00000000-0000-4000-8000-000000000000''),
      random_source = (\<lambda>k. k),
      json_write_fault = (\<lambda>p. None), text_write_fault = (\<lambda>p. None),
      text_read_fault = (\<lambda>p. None), rmtree_fault = (\<lambda>p. None),
      scandir_fault = (\<lambda>p. None)\<rparr>"

text \<open>What a listing shows of an entry: its name and its kind, nothing of what lies
  below it.\<close>

fun shallow :: "entry \<Rightarrow> entry" where
  "shallow (Dir n sub) = Dir n None"
| "shallow e = e"



text \<open>The drive of the running example: \<^verbatim>\<open>E:\<close> with a descriptor that asks for
  purging.\<close>

definition example_drive :: drive where
  "example_drive =
     \<lparr>drive_path = [CHR ''E'', colon, sep],
      drive_id = JStr ''00000000-0000-4000-8000-000000000000'',
      drive_name = JStr ''Blue Fox'',
      drive_json = [(''source'', JBool True), (''purge'', JBool True)]\<rparr>"

text \<open>The host of the running example: \<^verbatim>\<open>E:\<close> is the one removable drive, and holds
  \<^verbatim>\<open>drive.json\<close>, \<^verbatim>\<open>DCIM\100\IMG_1.JPG\<close> and the empty directory
  \<^verbatim>\<open>DCIM\EMPTY\<close>.\<close>

definition example_host :: host where
  "example_host =
     quiet_host
       \<lparr>drive_type := (\<lambda>p. if p = [CHR ''E'', colon, sep] then 2 else 1),
        volume := (\<lambda>p. if p = [CHR ''E'', colon, sep]
                        then Some [File ''drive.json'',
                                   Dir ''DCIM'' (Some [Dir ''100'' (Some [File ''IMG_1.JPG'']),
                                                       Dir ''EMPTY'' (Some [])])]
                        else None)\<rparr>"

text \<open>A world in which the volume at \<open>drive\<close> carries a \<^verbatim>\<open>drive.json\<close> holding the
  object \<open>data\<close>.\<close>

definition plug :: "path \<Rightarrow> pydict \<Rightarrow> world \<Rightarrow> world" where
  "plug drive data w =
     w\<lparr>descriptors := (descriptors w)(join drive ''drive.json'' \<mapsto> Document (JObj data))\<rparr>"

text \<open>A computation from \<open>w\<close> to \<open>w'\<close> has only appended to the list of marked folders,
  and every path it appended satisfies \<open>P\<close>.\<close>

definition appends :: "(path \<Rightarrow> bool) \<Rightarrow> world \<Rightarrow> world \<Rightarrow> bool" where
  "appends P w w' \<longleftrightarrow>
     (\<exists>new. folders_marked_for_deletion w' = folders_marked_for_deletion w @ new \<and> list_all P new)"

text \<open>The world discovery leaves behind, whether it returned or raised, and the list
  it returned (none when it raised).\<close>

definition final_world :: "error \<times> world + drive list \<times> world \<Rightarrow> world" where
  "final_world r = (case r of Inl (e, w) \<Rightarrow> w | Inr (drives, w) \<Rightarrow> w)"

definition returned_drives :: "error \<times> world + drive list \<times> world \<Rightarrow> drive list" where
  "returned_drives r = (case r of Inl (e, w) \<Rightarrow> [] | Inr (drives, w) \<Rightarrow> drives)"

text \<open>The fields \<open>baptize\<close> adds: the identifier when it is missing, then the name
  when it is missing.\<close>

definition id_part :: "host \<Rightarrow> pydict \<Rightarrow> world \<Rightarrow> pydict" where
  "id_part h data w =
     (if ''id'' \<in> fst ` set data then [] else [(''id'', JStr (fst (uuid4 h w)))])"

definition name_part :: "host \<Rightarrow> pydict \<Rightarrow> world \<Rightarrow> pydict" where
  "name_part h data w =
     (if ''name'' \<in> fst ` set data then []
      else [(''name'', JStr (fst (generate_human_name h
              (if ''id'' \<in> fst ` set data then w else snd (uuid4 h w)))))])"

text \<open>A host with two removable drives, \<^verbatim>\<open>E:\<close> and \<^verbatim>\<open>F:\<close>.\<close>

definition two_drive_host :: host where
  "two_drive_host =
     quiet_host
       \<lparr>drive_type := (\<lambda>p. if p = [CHR ''E'', colon, sep] \<or> p = [CHR ''F'', colon, sep]
                            then 2 else 1)\<rparr>"
















section \<open>Properties\<close>

subsection \<open>Lower-casing and extension splitting\<close>

lemma lower_char_range: "lower_char c = c \<or> lower_char c \<in> set ascii_lowercase"
  unfolding lower_char_def
  by (auto split: option.splits dest!: map_of_SomeD set_zip_rightD)

lemma lower_char_non_upper: "c \<notin> set ascii_uppercase \<Longrightarrow> lower_char c = c"
  by (auto simp: lower_char_def split: option.splits dest!: map_of_SomeD set_zip_leftD)

lemma lower_char_fixed:
  assumes "c \<notin> set ascii_uppercase" "c \<notin> set ascii_lowercase"
  shows "lower_char x = c \<longleftrightarrow> x = c"
proof
  assume "lower_char x = c"
  with assms lower_char_range [of x] show "x = c" by auto
next
  assume "x = c"
  with assms(1) show "lower_char x = c" by (simp add: lower_char_non_upper)
qed

lemma lower_char_extsep: "lower_char x = extsep \<longleftrightarrow> x = extsep"
  by (rule lower_char_fixed) (simp_all add: extsep_def ascii_uppercase_def ascii_lowercase_def)





lemma rfind_neg: "rfind s c < 0 \<longleftrightarrow> c \<notin> set s"
  by (induction s) (auto simp: Let_def)





lemma splitext_dotfile:
  assumes "extsep \<notin> set s"
  shows "splitext (extsep # s) = (extsep # s, [])"
proof -
  have "rfind s extsep < 0" using assms by (simp add: rfind_neg)
  then have d: "rfind (extsep # s) extsep = 0" by (simp add: Let_def)
  have "\<not> skip_leading_dots (extsep # s) n 0" for n
    by (simp add: skip_leading_dots.simps)
  then show ?thesis
    unfolding splitext_def d by (simp add: Let_def)
qed

lemma media_ext_shape:
  "e \<in> set import_media_exts \<Longrightarrow> \<exists>t. e = extsep # t \<and> extsep \<notin> set t"
  by (auto simp: import_media_exts_def extsep_def)

lemma dot_name_shape:
  assumes "lower name \<in> set import_media_exts"
  shows "\<exists>s. name = extsep # s \<and> extsep \<notin> set s"
proof -
  from media_ext_shape [OF assms] obtain t where t: "lower name = extsep # t" "extsep \<notin> set t"
    by blast
  then obtain c s where cs: "name = c # s" by (cases name) (auto simp: lower_def)
  with t have ct: "lower_char c = extsep" "t = lower s" by (auto simp: lower_def)
  have dot: "lower_char extsep = extsep" by (simp add: lower_char_extsep)
  have "c = extsep" using ct(1) by (simp add: lower_char_extsep)
  moreover have "extsep \<notin> set s"
  proof
    assume "extsep \<in> set s"
    then have "lower_char extsep \<in> set (lower s)" by (simp add: lower_def)
    with dot ct(2) t(2) show False by simp
  qed
  ultimately show ?thesis using cs by blast
qed

lemma dot_name_not_media:
  assumes "lower name \<in> set import_media_exts"
  shows "snd (splitext name) = []" "\<not> import_is_media name" "\<not> purge_is_media name"
proof -
  from dot_name_shape [OF assms] obtain s where "name = extsep # s" "extsep \<notin> set s"
    by blast
  then show e: "snd (splitext name) = []" by (simp add: splitext_dotfile)
  show "\<not> import_is_media name"
    unfolding import_is_media_def e by (simp add: lower_def import_media_exts_def)
  show "\<not> purge_is_media name"
    unfolding purge_is_media_def e by (simp add: lower_def try_remove_folder_media_exts_def)
qed

subsection \<open>The purge-eligibility check\<close>

lemma scan_entries_eq:
  "scan_entries es (m, s) =
     (m \<or> (\<exists>e\<in>set es. \<not> is_dir e \<and> is_file e \<and> purge_is_media (entry_name e)),
      s \<or> (\<exists>e\<in>set es. is_dir e))"
  by (induction es arbitrary: m s) auto

lemma shallow_kind [simp]:
  "is_dir (shallow e) = is_dir e" "is_file (shallow e) = is_file e"
  "entry_name (shallow e) = entry_name e"
  by (cases e; simp)+


lemma try_remove_folder_marks:
  "folders_marked_for_deletion (try_remove_folder (Inr entries) folder_path w) =
     (if (\<forall>e\<in>set entries. \<not> is_dir e) \<and>
         (\<forall>e\<in>set entries. is_file e \<longrightarrow> \<not> purge_is_media (entry_name e))
      then folders_marked_for_deletion w @ [folder_path]
      else folders_marked_for_deletion w)"
  by (auto simp: try_remove_folder_def scan_entries_eq write_debug_def write_delete_line_def
        Let_def)




subsection \<open>The two extension lists\<close>


subsection \<open>Names that are nothing but an extension\<close>

text \<open>
  C9. A file whose whole name is a dot followed by a media extension, in any case, has
  the empty extension for \<^verbatim>\<open>splitext\<close>. Both tests take it for a non-media file: the
  walker's loop over the files passes it over without a backup, the eligibility loop
  passes it over without setting a flag, and a directory holding only that file is
  marked.
\<close>

theorem C9_dot_only_names:
  assumes "lower name \<in> set import_media_exts"
  shows "snd (splitext name) = []
     \<and> \<not> import_is_media name \<and> \<not> purge_is_media name
     \<and> import_files drive root (name # files) w = import_files drive root files w
     \<and> scan_entries (File name # es) (has_media, has_subfolders) =
         scan_entries es (has_media, has_subfolders)
     \<and> folders_marked_for_deletion (try_remove_folder (Inr [File name]) folder_path w) =
         folders_marked_for_deletion w @ [folder_path]"
  using dot_name_not_media [OF assms] by (simp add: try_remove_folder_marks)

theorem C9_dot_only_names_witness:
  "lower ''.JPG'' \<in> set import_media_exts
   \<and> \<not> import_is_media ''.JPG'' \<and> \<not> purge_is_media ''.JPG''
   \<and> import_files example_drive (drive_path example_drive) [''.JPG''] initial_world =
       initial_world
   \<and> folders_marked_for_deletion
        (try_remove_folder (Inr [File ''.JPG'']) (join (drive_path example_drive) ''X'')
           initial_world) = [join (drive_path example_drive) ''X'']"
proof -
  have h: "lower ''.JPG'' \<in> set import_media_exts"
    by (simp add: lower_def lower_char_def ascii_uppercase_def ascii_lowercase_def
          import_media_exts_def)
  show ?thesis
    using h C9_dot_only_names [OF h, of example_drive "drive_path example_drive" "[]"
            initial_world "[]" False False "join (drive_path example_drive) ''X''"]
    by (simp add: initial_world_def)
qed

subsection \<open>The import walker and the mount root\<close>

lemma appends_refl: "appends P w w"
  by (simp add: appends_def)

lemma appends_same:
  "folders_marked_for_deletion w' = folders_marked_for_deletion w \<Longrightarrow> appends P w w'"
  by (simp add: appends_def)

lemma appends_trans: "appends P w w' \<Longrightarrow> appends P w' w'' \<Longrightarrow> appends P w w''"
  by (auto simp: appends_def)

lemma appends_mono: "appends P w w' \<Longrightarrow> (\<And>c. P c \<Longrightarrow> Q c) \<Longrightarrow> appends Q w w'"
  by (auto simp: appends_def list_all_iff)

lemma fold_appends:
  "(\<And>e w. e \<in> set es \<Longrightarrow> appends P w (f e w)) \<Longrightarrow> appends P w (fold f es w)"
proof (induction es arbitrary: w)
  case Nil
  show ?case by (simp add: appends_refl)
next
  case (Cons e es)
  have "appends P w (f e w)" by (rule Cons.prems) simp
  moreover have "appends P (f e w) (fold f es (f e w))"
    by (rule Cons.IH) (simp add: Cons.prems)
  ultimately show ?case by (auto intro: appends_trans)
qed

lemma import_files_folders [simp]:
  "folders_marked_for_deletion (import_files drive root files w) = folders_marked_for_deletion w"
  by (induction files arbitrary: w) (simp_all add: backup_media_file_def write_console_def)

lemma try_remove_folder_appends:
  "appends (\<lambda>c. c = folder_path) w (try_remove_folder scan folder_path w)"
  by (cases scan)
     (auto simp: try_remove_folder_def appends_def write_debug_def write_delete_line_def
        Let_def split: prod.splits)

lemma import_visit_appends:
  "appends (\<lambda>c. c = root \<and> normpath c \<noteq> normpath root_path) w
     (import_visit h drive purge root_path root entries w)"
proof (cases "truthy purge \<and> normpath root \<noteq> normpath root_path")
  case True
  have "appends (\<lambda>c. c = root \<and> normpath c \<noteq> normpath root_path) w'
               (try_remove_folder scan root w')" for w' scan
    by (rule appends_mono [OF try_remove_folder_appends]) (use True in simp)
  note mark = this
  have pre: "appends P w (write_debug m4 (write_debug m3 (write_debug m2 (write_debug m1
                   (import_files drive root files w)))))" for P m1 m2 m3 m4 files
    by (rule appends_same) (simp add: write_debug_def)
  from True have t: "truthy purge" "normpath root \<noteq> normpath root_path" by simp_all
  show ?thesis
    unfolding import_visit_def Let_def
    by (simp add: t) (rule appends_trans [OF pre mark])
next
  case False
  then show ?thesis
    by (auto simp: import_visit_def Let_def write_debug_def intro!: appends_same)
qed

lemma join_extends: "\<exists>s. join p n = p @ s"
  by (simp add: join_def)

lemma walk_appends:
  "\<exists>s. root = root_path @ s \<Longrightarrow>
   appends (\<lambda>c. normpath c \<noteq> normpath root_path \<and> (\<exists>s. c = root_path @ s)) w
     (walk h drive purge root_path root listing w)"
proof (induction h drive purge root_path root listing w rule: walk.induct)
  case (1 h drive purge root_path root w)
  show ?case by (simp add: appends_refl)
next
  case (2 h drive purge root_path root entries w)
  let ?P = "\<lambda>c. normpath c \<noteq> normpath root_path \<and> (\<exists>s. c = root_path @ s)"
  have visit: "appends ?P w (import_visit h drive purge root_path root entries w)"
    using import_visit_appends [of root root_path w h drive purge entries] "2.prems"
    by (auto elim: appends_mono)
  have step: "appends ?P w'
                (case e of Dir n sub \<Rightarrow> walk h drive purge root_path (join root n) sub w'
                 | _ \<Rightarrow> w')" if e: "e \<in> set entries" for e w'
  proof (cases e)
    case (Dir n sub)
    from "2.prems" join_extends [of root n] have "\<exists>s. join root n = root_path @ s" by auto
    then show ?thesis using "2.IH" [OF e Dir] Dir by simp
  qed (simp_all add: appends_refl)
  show ?case
    unfolding walk.simps
    by (rule appends_trans [OF visit]) (rule fold_appends, rule step)
qed

lemma import_drive_appends:
  "appends (\<lambda>c. normpath c \<noteq> normpath (drive_path drive) \<and> (\<exists>s. c = drive_path drive @ s)) w
     (import_drive h drive w)"
proof -
  have "appends P w (write_console m2 l i (write_debug m1 w))" for P m1 m2 l i
    by (rule appends_same) (simp add: write_debug_def write_console_def)
  moreover have "\<exists>s. drive_path drive = drive_path drive @ s" by simp
  ultimately show ?thesis
    unfolding import_drive_def Let_def
    by (blast intro: appends_trans walk_appends)
qed

lemma import_from_external_drives_appends:
  "appends (\<lambda>c. \<exists>d\<in>set drives. normpath c \<noteq> normpath (drive_path d) \<and> (\<exists>s. c = drive_path d @ s))
     w (import_from_external_drives h drives w)"
proof -
  let ?P = "\<lambda>c. \<exists>d\<in>set drives. normpath c \<noteq> normpath (drive_path d) \<and> (\<exists>s. c = drive_path d @ s)"
  have "appends ?P w' (import_drive h d w')" if "d \<in> set drives" for d w'
    using import_drive_appends [of d w' h] that by (auto elim!: appends_mono)
  then have "appends ?P w' (fold (import_drive h) drives w')" for w'
    by (rule fold_appends)
  moreover have "appends ?P w (write_console m l i w)" for m l i
    by (rule appends_same) (simp add: write_console_def)
  ultimately show ?thesis
    unfolding import_from_external_drives_def by (blast intro: appends_trans)
qed

lemma split_sep_nonempty: "split_sep s \<noteq> []"
  by (induction s) (auto split: list.splits)

lemma split_sep_snoc: "split_sep (s @ [sep]) = split_sep s @ [[]]"
proof (induction s)
  case Nil
  show ?case by simp
next
  case (Cons c s)
  then show ?case
    using split_sep_nonempty [of s] by (cases "split_sep s") auto
qed

lemma norm_step_empty: "norm_step rooted comps [] = comps"
  by (simp add: norm_step_def)

lemma comps_trailing_sep:
  "foldl (norm_step rooted) [] (split_sep (dropWhile (\<lambda>c. c = sep) (r @ [sep]))) =
   foldl (norm_step rooted) [] (split_sep (dropWhile (\<lambda>c. c = sep) r))"
proof (cases "\<forall>c\<in>set r. c = sep")
  case True
  then have "dropWhile (\<lambda>c. c = sep) r = []" "dropWhile (\<lambda>c. c = sep) (r @ [sep]) = []"
    by (simp_all add: dropWhile_eq_Nil_conv)
  then show ?thesis by (simp only:)
next
  case False
  then have "dropWhile (\<lambda>c. c = sep) (r @ [sep]) = dropWhile (\<lambda>c. c = sep) r @ [sep]"
    by (auto simp: dropWhile_append)
  then show ?thesis by (simp add: split_sep_snoc norm_step_empty)
qed

lemma normpath_drive_root:
  "normpath ([letter, colon, sep] @ rest) =
     (let r = map (\<lambda>c. if c = altsep then sep else c) rest
      in [if letter = altsep then sep else letter, colon, sep] @
         join_sep (foldl (norm_step True) [] (split_sep (dropWhile (\<lambda>c. c = sep) r))))"
  by (simp add: normpath_def Let_def colon_def altsep_def sep_def)

lemma normpath_trailing_sep:
  "normpath ([letter, colon, sep] @ rest @ [sep]) = normpath ([letter, colon, sep] @ rest)"
proof -
  have "map (\<lambda>c. if c = altsep then sep else c) (rest @ [sep]) =
        map (\<lambda>c. if c = altsep then sep else c) rest @ [sep]"
    by simp
  then show ?thesis
    unfolding normpath_drive_root Let_def by (simp only: comps_trailing_sep)
qed

lemma drive_root_not_appended:
  assumes roots: "\<forall>d\<in>set drives. \<exists>letter. drive_path d = [letter, colon, sep]"
    and d': "d' \<in> set drives"
    and c: "\<exists>d\<in>set drives. normpath c \<noteq> normpath (drive_path d) \<and> (\<exists>s. c = drive_path d @ s)"
  shows "c \<noteq> drive_path d'"
proof
  assume eq: "c = drive_path d'"
  from c obtain d s where d: "d \<in> set drives" "normpath c \<noteq> normpath (drive_path d)"
    "c = drive_path d @ s" by blast
  from roots d(1) obtain l where l: "drive_path d = [l, colon, sep]" by blast
  from roots d' obtain l' where l': "drive_path d' = [l', colon, sep]" by blast
  from eq d(3) l l' have "c = drive_path d" by simp
  with d(2) show False by simp
qed

text \<open>
  C2, as the code has it. The walk of a drive appends nothing whose normalized path
  equals the normalized mount root; when the mount roots are the drive roots that
  discovery builds (a letter, a colon, a separator), a whole import run appends the
  mount root of none of its drives, whatever the descriptors and the trees are. The
  comparison is made on \<^verbatim>\<open>os.path.normpath\<close> forms, which do not change when a
  separator is put at the end of a path on a drive. The case of letters is kept by
  \<^verbatim>\<open>normpath\<close>, so the comparison is case-sensitive.
\<close>

theorem C2_root_exemption:
  assumes "\<forall>d\<in>set drives. \<exists>letter. drive_path d = [letter, colon, sep]"
  shows "(\<exists>new. folders_marked_for_deletion (import_from_external_drives h drives w) =
                  folders_marked_for_deletion w @ new
              \<and> (\<forall>d\<in>set drives. drive_path d \<notin> set new))
       \<and> (\<exists>new. folders_marked_for_deletion (import_drive h drive w) =
                  folders_marked_for_deletion w @ new
              \<and> (\<forall>c\<in>set new. normpath c \<noteq> normpath (drive_path drive)))
       \<and> (\<forall>letter rest. normpath ([letter, colon, sep] @ rest @ [sep]) =
                          normpath ([letter, colon, sep] @ rest))"
proof (intro conjI allI)
  from import_from_external_drives_appends [of drives w h]
  obtain new where new: "folders_marked_for_deletion (import_from_external_drives h drives w) =
      folders_marked_for_deletion w @ new"
    "\<forall>c\<in>set new. \<exists>d\<in>set drives. normpath c \<noteq> normpath (drive_path d) \<and> (\<exists>s. c = drive_path d @ s)"
    by (auto simp: appends_def list_all_iff)
  have "drive_path d' \<notin> set new" if "d' \<in> set drives" for d'
    using drive_root_not_appended [OF assms that] new(2) by blast
  with new(1) show "\<exists>new. folders_marked_for_deletion (import_from_external_drives h drives w) =
      folders_marked_for_deletion w @ new \<and> (\<forall>d\<in>set drives. drive_path d \<notin> set new)"
    by blast
next
  from import_drive_appends [of drive w h]
  show "\<exists>new. folders_marked_for_deletion (import_drive h drive w) =
                  folders_marked_for_deletion w @ new
              \<and> (\<forall>c\<in>set new. normpath c \<noteq> normpath (drive_path drive))"
    by (auto simp: appends_def list_all_iff)
next
  fix letter rest
  show "normpath ([letter, colon, sep] @ rest @ [sep]) = normpath ([letter, colon, sep] @ rest)"
    by (rule normpath_trailing_sep)
qed

lemma example_run:
  "folders_marked_for_deletion (import_from_external_drives example_host [example_drive] initial_world)
     = [[CHR ''E'', colon, sep] @ ''DCIM'' @ [sep] @ ''EMPTY'']"
  by (simp add: import_from_external_drives_def import_drive_def example_drive_def example_host_def
      quiet_host_def initial_world_def import_visit_def Let_def write_console_def write_debug_def
      write_delete_line_def backup_media_file_def try_remove_folder_def
      import_is_media_def purge_is_media_def import_media_exts_def try_remove_folder_media_exts_def
      splitext_def skip_leading_dots.simps lower_def lower_char_def ascii_uppercase_def
      ascii_lowercase_def normpath_def norm_step_def join_def sep_def altsep_def extsep_def colon_def)

text \<open>The running example: \<^verbatim>\<open>E:\DCIM\EMPTY\<close> is marked, the root \<^verbatim>\<open>E:\\<close> is not;
  and of a drive whose root is empty nothing is marked.\<close>

theorem C2_root_exemption_witness:
  "drive_path example_drive = [CHR ''E'', colon, sep]
   \<and> folders_marked_for_deletion
        (import_from_external_drives example_host [example_drive] initial_world) =
      [[CHR ''E'', colon, sep] @ ''DCIM'' @ [sep] @ ''EMPTY'']
   \<and> drive_path example_drive \<notin>
        set (folders_marked_for_deletion
               (import_from_external_drives example_host [example_drive] initial_world))
   \<and> folders_marked_for_deletion
        (import_from_external_drives (quiet_host\<lparr>volume := \<lambda>p. Some []\<rparr>) [example_drive]
           initial_world) = []"
proof -
  have roots: "\<forall>d\<in>set [example_drive]. \<exists>letter. drive_path d = [letter, colon, sep]"
    by (simp add: example_drive_def)
  have empty_root: "folders_marked_for_deletion
        (import_from_external_drives (quiet_host\<lparr>volume := \<lambda>p. Some []\<rparr>) [example_drive]
           initial_world) = []"
    by (simp add: import_from_external_drives_def import_drive_def example_drive_def
      quiet_host_def initial_world_def import_visit_def Let_def write_console_def write_debug_def
      normpath_def norm_step_def sep_def altsep_def colon_def)
  from C2_root_exemption [OF roots, of example_host initial_world example_drive]
  show ?thesis
    using example_run empty_root by (simp add: example_drive_def initial_world_def)
qed

text \<open>The comparison tells \<^verbatim>\<open>e:\\<close> from \<^verbatim>\<open>E:\\<close>: run on the root spelled with a small
  letter, the body of the walk marks it.\<close>

theorem C2_case_sensitive_counterexample:
  "lower [CHR ''e'', colon, sep] = lower [CHR ''E'', colon, sep]
   \<and> normpath [CHR ''e'', colon, sep] \<noteq> normpath [CHR ''E'', colon, sep]
   \<and> folders_marked_for_deletion
        (import_visit quiet_host example_drive (JBool True) [CHR ''E'', colon, sep]
           [CHR ''e'', colon, sep] [] initial_world) = [[CHR ''e'', colon, sep]]"
  by (simp add: lower_def lower_char_def ascii_uppercase_def ascii_lowercase_def colon_def sep_def
      normpath_def norm_step_def altsep_def import_visit_def Let_def write_debug_def
      try_remove_folder_def write_delete_line_def quiet_host_def initial_world_def)

subsection \<open>Drive discovery\<close>

lemma update_absent: "k \<notin> fst ` set d \<Longrightarrow> AList.update k v d = d @ [(k, v)]"
  by (induction d) auto

lemma baptize_present:
  "''id'' \<in> fst ` set data \<Longrightarrow> ''name'' \<in> fst ` set data \<Longrightarrow>
   baptize h data w = (data, False, w)"
  by (simp add: baptize_def)

lemma name_key_after_id:
  "''name'' \<in> fst ` set (data @ [(''id'', v)]) \<longleftrightarrow> ''name'' \<in> fst ` set data"
  by simp

lemma baptize_eq:
  "fst (baptize h data w) = data @ id_part h data w @ name_part h data w"
  "fst (snd (baptize h data w)) \<longleftrightarrow> id_part h data w @ name_part h data w \<noteq> []"
proof -
  consider (both) "''id'' \<in> fst ` set data" "''name'' \<in> fst ` set data"
    | (name) "''id'' \<in> fst ` set data" "''name'' \<notin> fst ` set data"
    | (id) "''id'' \<notin> fst ` set data" "''name'' \<in> fst ` set data"
    | (none) "''id'' \<notin> fst ` set data" "''name'' \<notin> fst ` set data"
    by blast
  then have "fst (baptize h data w) = data @ id_part h data w @ name_part h data w
     \<and> (fst (snd (baptize h data w)) \<longleftrightarrow> id_part h data w @ name_part h data w \<noteq> [])"
  proof cases
    case both
    then show ?thesis by (simp add: baptize_def id_part_def name_part_def)
  next
    case name
    then show ?thesis
      by (simp add: baptize_def id_part_def name_part_def update_absent split: prod.splits)
  next
    case id
    then show ?thesis
      by (simp add: baptize_def id_part_def name_part_def update_absent name_key_after_id
            split: prod.splits)
  next
    case none
    then show ?thesis
      by (simp add: baptize_def id_part_def name_part_def update_absent name_key_after_id
            split: prod.splits)
  qed
  then show "fst (baptize h data w) = data @ id_part h data w @ name_part h data w"
    "fst (snd (baptize h data w)) \<longleftrightarrow> id_part h data w @ name_part h data w \<noteq> []"
    by simp_all
qed

lemma added_keys:
  "set (map fst (id_part h data w @ name_part h data w)) = {''id'', ''name''} - fst ` set data"
  "distinct (map fst (id_part h data w @ name_part h data w))"
  by (simp_all add: id_part_def name_part_def insert_Diff_if)

lemma baptize_appends:
  assumes "baptize h data w = (data', updated, w')"
  shows "\<exists>added. data' = data @ added
           \<and> set (map fst added) = {''id'', ''name''} - fst ` set data
           \<and> distinct (map fst added)
           \<and> (updated \<longleftrightarrow> added \<noteq> [])"
proof -
  from assms baptize_eq [of h data w]
  have "data' = data @ id_part h data w @ name_part h data w"
    "updated \<longleftrightarrow> id_part h data w @ name_part h data w \<noteq> []"
    by simp_all
  with added_keys [of h data w] show ?thesis by blast
qed

lemma baptize_keys:
  assumes "baptize h data w = (data', updated, w')"
  shows "''id'' \<in> fst ` set data'" "''name'' \<in> fst ` set data'"
proof -
  from baptize_appends [OF assms] obtain added where
    a: "data' = data @ added" "set (map fst added) = {''id'', ''name''} - fst ` set data"
    by blast
  have "fst ` set data' = fst ` set data \<union> set (map fst added)"
    unfolding a(1) by (simp add: image_Un)
  also have "\<dots> = fst ` set data \<union> {''id'', ''name''}"
    unfolding a(2) by blast
  finally have "fst ` set data' = fst ` set data \<union> {''id'', ''name''}" .
  then show "''id'' \<in> fst ` set data'" "''name'' \<in> fst ` set data'" by simp_all
qed

lemma baptize_not_updated:
  assumes "baptize h data w = (data', False, w')"
  shows "data' = data" "w' = w"
proof -
  from baptize_appends [OF assms] obtain added where
    "data' = data @ added" "set (map fst added) = {''id'', ''name''} - fst ` set data"
    "added = []" by blast
  then have d: "data' = data" "{''id'', ''name''} - fst ` set data = {}" by simp_all
  then have "''id'' \<in> fst ` set data" "''name'' \<in> fst ` set data" by blast+
  then have "baptize h data w = (data, False, w)" by (rule baptize_present)
  with assms d show "data' = data" "w' = w" by simp_all
qed

lemma baptize_world:
  assumes "baptize h data w = (data', updated, w')"
  shows "descriptors w' = descriptors w" "trace w' = trace w"
    "folders_marked_for_deletion w' = folders_marked_for_deletion w" "disk w' = disk w"
  using assms
  by (auto simp: baptize_def uuid4_def generate_human_name_def Let_def split: if_splits)

lemma write_console_fields [simp]:
  "descriptors (write_console m l i w) = descriptors w"
  "folders_marked_for_deletion (write_console m l i w) = folders_marked_for_deletion w"
  "disk (write_console m l i w) = disk w"
  "uuids_drawn (write_console m l i w) = uuids_drawn w"
  "randoms_drawn (write_console m l i w) = randoms_drawn w"
  by (simp_all add: write_console_def)

lemma dump_descriptor_frame:
  "dump_descriptor h p data w = (raised, w') \<Longrightarrow> q \<noteq> p \<Longrightarrow> descriptors w' q = descriptors w q"
  by (auto simp: dump_descriptor_def split: option.splits write_fault.splits)

lemma dump_descriptor_ok:
  "json_write_fault h p = None \<Longrightarrow>
   dump_descriptor h p data w = (None, w\<lparr>descriptors := (descriptors w)(p \<mapsto> Document data)\<rparr>)"
  by (simp add: dump_descriptor_def)

lemma detect_drive_not_source:
  assumes "descriptors w (join drive ''drive.json'') = Some (Document (JObj data))"
    and "map_of data ''source'' \<noteq> Some (JBool True)"
  shows "\<exists>w'. detect_drive h drive valid w = Inr (valid, w') \<and> descriptors w' = descriptors w
            \<and> uuids_drawn w' = uuids_drawn w \<and> randoms_drawn w' = randoms_drawn w"
  using assms by (simp add: detect_drive_def Let_def)

lemma detect_drive_baptized:
  assumes "descriptors w (join drive ''drive.json'') = Some (Document (JObj data))"
    and "''id'' \<in> fst ` set data" "''name'' \<in> fst ` set data"
  shows "\<exists>w'. detect_drive h drive valid w =
            Inr (if map_of data ''source'' = Some (JBool True)
                 then valid @ [\<lparr>drive_path = drive, drive_id = lookup data ''id'',
                                 drive_name = lookup data ''name'', drive_json = data\<rparr>]
                 else valid, w')
          \<and> descriptors w' = descriptors w
          \<and> uuids_drawn w' = uuids_drawn w \<and> randoms_drawn w' = randoms_drawn w"
  using assms by (simp add: detect_drive_def Let_def baptize_present)

lemma detect_drive_cases:
  obtains (missing) "descriptors w (join drive ''drive.json'') = None"
  | (unreadable) e where "descriptors w (join drive ''drive.json'') = Some (Unreadable e)"
  | (not_object) doc where "descriptors w (join drive ''drive.json'') = Some (Document doc)"
      "\<forall>data. doc \<noteq> JObj data"
  | (not_source) data where "descriptors w (join drive ''drive.json'') = Some (Document (JObj data))"
      "map_of data ''source'' \<noteq> Some (JBool True)"
  | (source) data where "descriptors w (join drive ''drive.json'') = Some (Document (JObj data))"
      "map_of data ''source'' = Some (JBool True)"
proof (cases "descriptors w (join drive ''drive.json'')")
  case None
  then show ?thesis by (rule missing)
next
  case (Some f)
  show ?thesis
  proof (cases f)
    case (Unreadable e)
    with Some show ?thesis by (auto intro: unreadable)
  next
    case (Document doc)
    show ?thesis
    proof (cases "\<exists>data. doc = JObj data")
      case True
      then obtain data where "doc = JObj data" by blast
      with Some Document show ?thesis
        by (cases "map_of data ''source'' = Some (JBool True)") (auto intro: not_source source)
    next
      case False
      with Some Document show ?thesis by (auto intro: not_object)
    qed
  qed
qed

lemma detect_drive_not_object:
  assumes "descriptors w (join drive ''drive.json'') = Some (Document doc)"
    and "\<forall>data. doc \<noteq> JObj data"
  shows "\<exists>e w'. detect_drive h drive valid w = Inl (e, w') \<and> descriptors w' = descriptors w"
  using assms by (cases doc) (simp_all add: detect_drive_def Let_def)

lemma detect_drive_source:
  assumes d: "descriptors w (join drive ''drive.json'') = Some (Document (JObj data))"
    and s: "map_of data ''source'' = Some (JBool True)"
  obtains data' updated w3 where
    "baptize h data (write_console [S ''drive.json found''] ''OK'' 2
        (write_console [S ''Found drive: '', S drive] ''INFO'' 1 w)) = (data', updated, w3)"
    "detect_drive h drive valid w =
      (let baptized = [V (lookup data' ''name''), S '' ('', V (lookup data' ''id''), S '')''];
           entry = \<lparr>drive_path = drive, drive_id = lookup data' ''id'',
                    drive_name = lookup data' ''name'', drive_json = data'\<rparr>
       in if updated then
            (case dump_descriptor h (join drive ''drive.json'') (JObj data') w3 of
               (None, w4) \<Rightarrow>
                 Inr (valid @ [entry],
                      write_console (S ''Drive baptized as: '' # baptized) ''OK'' 2 w4)
             | (Some e, w4) \<Rightarrow>
                 Inr (valid,
                      write_console [S ''Failed to write updated drive.json: '', S e]
                        ''ERROR'' 2 w4))
          else
            Inr (valid @ [entry],
                 write_console (S ''Drive already baptized: '' # baptized) ''INFO'' 2 w3))"
proof -
  obtain data' updated w3 where
    b: "baptize h data (write_console [S ''drive.json found''] ''OK'' 2
        (write_console [S ''Found drive: '', S drive] ''INFO'' 1 w)) = (data', updated, w3)"
    by (rule prod_cases3)
  show ?thesis
    by (rule that [OF b]) (use b in \<open>simp add: detect_drive_def Let_def d s\<close>)
qed

lemma detect_drive_missing:
  "descriptors w (join drive ''drive.json'') = None \<Longrightarrow>
   \<exists>w'. detect_drive h drive valid w = Inr (valid, w') \<and> descriptors w' = descriptors w"
  by (simp add: detect_drive_def Let_def)

lemma detect_drive_unreadable:
  "descriptors w (join drive ''drive.json'') = Some (Unreadable e) \<Longrightarrow>
   \<exists>w'. detect_drive h drive valid w = Inr (valid, w') \<and> descriptors w' = descriptors w"
  by (simp add: detect_drive_def Let_def)

text \<open>Frame: only the drive's own descriptor can change.\<close>

lemma detect_drive_frame:
  assumes "q \<noteq> join drive ''drive.json''"
  shows "descriptors (final_world (detect_drive h drive valid w)) q = descriptors w q"
proof (cases rule: detect_drive_cases [of w drive])
  case missing
  from detect_drive_missing [OF this, of h valid] show ?thesis by (auto simp: final_world_def)
next
  case (unreadable e)
  from detect_drive_unreadable [OF this, of h valid] show ?thesis by (auto simp: final_world_def)
next
  case (not_object doc)
  from detect_drive_not_object [OF this, of h valid] show ?thesis by (auto simp: final_world_def)
next
  case (not_source data)
  from detect_drive_not_source [OF this, of h valid] show ?thesis by (auto simp: final_world_def)
next
  case (source data)
  from detect_drive_source [OF this, of h valid]
  obtain data' updated w3 where
    b: "baptize h data (write_console [S ''drive.json found''] ''OK'' 2
        (write_console [S ''Found drive: '', S drive] ''INFO'' 1 w)) = (data', updated, w3)"
    and r: "detect_drive h drive valid w =
      (let baptized = [V (lookup data' ''name''), S '' ('', V (lookup data' ''id''), S '')''];
           entry = \<lparr>drive_path = drive, drive_id = lookup data' ''id'',
                    drive_name = lookup data' ''name'', drive_json = data'\<rparr>
       in if updated then
            (case dump_descriptor h (join drive ''drive.json'') (JObj data') w3 of
               (None, w4) \<Rightarrow>
                 Inr (valid @ [entry],
                      write_console (S ''Drive baptized as: '' # baptized) ''OK'' 2 w4)
             | (Some e, w4) \<Rightarrow>
                 Inr (valid,
                      write_console [S ''Failed to write updated drive.json: '', S e]
                        ''ERROR'' 2 w4))
          else
            Inr (valid @ [entry],
                 write_console (S ''Drive already baptized: '' # baptized) ''INFO'' 2 w3))"
    by blast
  have w3: "descriptors w3 = descriptors w" using baptize_world(1) [OF b] by simp
  obtain raised w4 where
    dd: "dump_descriptor h (join drive ''drive.json'') (JObj data') w3 = (raised, w4)"
    by (rule prod.exhaust)
  from dump_descriptor_frame [OF dd assms] have "descriptors w4 q = descriptors w q"
    by (simp add: w3)
  then show ?thesis
    unfolding r by (cases raised) (simp_all add: Let_def final_world_def dd w3)
qed

text \<open>What a round can append to the list of valid drives.\<close>

lemma detect_drive_returns:
  assumes "detect_drive h drive valid w = Inr (valid', w')"
  shows "valid' = valid \<or>
         (\<exists>entry data. valid' = valid @ [entry] \<and> drive_path entry = drive
            \<and> descriptors w (join drive ''drive.json'') = Some (Document (JObj data))
            \<and> map_of data ''source'' = Some (JBool True)
            \<and> map_of (drive_json entry) ''source'' = Some (JBool True))"
proof (cases rule: detect_drive_cases [of w drive])
  case missing
  from detect_drive_missing [OF this, of h valid] assms show ?thesis by auto
next
  case (unreadable e)
  from detect_drive_unreadable [OF this, of h valid] assms show ?thesis by auto
next
  case (not_object doc)
  from detect_drive_not_object [OF this, of h valid] assms show ?thesis by auto
next
  case (not_source data)
  from detect_drive_not_source [OF this, of h valid] assms show ?thesis by auto
next
  case (source data)
  from detect_drive_source [OF this, of h valid]
  obtain data' updated w3 where
    b: "baptize h data (write_console [S ''drive.json found''] ''OK'' 2
        (write_console [S ''Found drive: '', S drive] ''INFO'' 1 w)) = (data', updated, w3)"
    and r: "detect_drive h drive valid w =
      (let baptized = [V (lookup data' ''name''), S '' ('', V (lookup data' ''id''), S '')''];
           entry = \<lparr>drive_path = drive, drive_id = lookup data' ''id'',
                    drive_name = lookup data' ''name'', drive_json = data'\<rparr>
       in if updated then
            (case dump_descriptor h (join drive ''drive.json'') (JObj data') w3 of
               (None, w4) \<Rightarrow>
                 Inr (valid @ [entry],
                      write_console (S ''Drive baptized as: '' # baptized) ''OK'' 2 w4)
             | (Some e, w4) \<Rightarrow>
                 Inr (valid,
                      write_console [S ''Failed to write updated drive.json: '', S e]
                        ''ERROR'' 2 w4))
          else
            Inr (valid @ [entry],
                 write_console (S ''Drive already baptized: '' # baptized) ''INFO'' 2 w3))"
    by blast
  from baptize_appends [OF b] obtain added where a: "data' = data @ added" by blast
  from source(2) have "map_of data' ''source'' = Some (JBool True)"
    unfolding a by (simp add: map_of_append)
  with assms source show ?thesis
    unfolding r
    by (auto simp: Let_def split: if_splits prod.splits option.splits)
qed

lemma final_world_detect_loop_Cons:
  "final_world (detect_loop h (drive # drives) valid w) =
     (case detect_drive h drive valid w of
        Inl failure \<Rightarrow> final_world (detect_drive h drive valid w)
      | Inr (valid', w') \<Rightarrow> final_world (detect_loop h drives valid' w'))"
  by (simp add: final_world_def split: sum.splits prod.splits)

text \<open>An invariant of the descriptor store that every round keeps is kept by discovery.\<close>

lemma detect_loop_invariant:
  assumes step: "\<And>drive valid w. I (descriptors w) \<Longrightarrow>
            I (descriptors (final_world (detect_drive h drive valid w)))"
    and "I (descriptors w)"
  shows "I (descriptors (final_world (detect_loop h drives valid w)))"
  using assms(2)
proof (induction drives arbitrary: valid w)
  case Nil
  then show ?case by (simp add: final_world_def)
next
  case (Cons drive drives)
  from step [OF Cons.prems] have s: "I (descriptors (final_world (detect_drive h drive valid w)))" .
  show ?case
  proof (cases "detect_drive h drive valid w")
    case (Inl failure)
    with s show ?thesis by (simp add: final_world_detect_loop_Cons)
  next
    case (Inr r)
    obtain valid' w' where r: "r = (valid', w')" by (cases r)
    with Inr s have "I (descriptors w')" by (simp add: final_world_def)
    from Cons.IH [OF this] Inr r show ?thesis by (simp add: final_world_detect_loop_Cons)
  qed
qed

lemma detect_external_drives_invariant:
  assumes step: "\<And>drive valid w. I (descriptors w) \<Longrightarrow>
            I (descriptors (final_world (detect_drive h drive valid w)))"
    and "I (descriptors w)"
  shows "I (descriptors (final_world (detect_external_drives h w)))"
  unfolding detect_external_drives_def Let_def
  by (rule detect_loop_invariant [where I = I and h = h], rule step)
     (simp_all add: assms(2))

lemma detect_drive_keeps_baptized:
  assumes "descriptors w p = Some (Document (JObj data))"
    and "''id'' \<in> fst ` set data" "''name'' \<in> fst ` set data"
  shows "descriptors (final_world (detect_drive h drive valid w)) p = Some (Document (JObj data))"
proof (cases "p = join drive ''drive.json''")
  case True
  with detect_drive_baptized [of w drive data h valid] assms show ?thesis
    by (auto simp: final_world_def)
next
  case False
  with assms(1) show ?thesis by (simp add: detect_drive_frame)
qed

text \<open>
  C4. When the descriptor file at \<open>p\<close> holds an object with both \<^verbatim>\<open>id\<close> and
  \<^verbatim>\<open>name\<close>, discovery leaves the file exactly as it was, on every host (also on one
  where every write would fail or truncate), and so does a second discovery run after
  the first. The round of the loop that handles the drive draws no identifier and no
  name, changes no descriptor file, and the entry it returns for an eligible drive
  carries the \<^verbatim>\<open>id\<close> and \<^verbatim>\<open>name\<close> of the file.
\<close>

theorem C4_idempotent_provisioning:
  assumes "descriptors w p = Some (Document (JObj data))"
    and "''id'' \<in> fst ` set data" and "''name'' \<in> fst ` set data"
  shows "descriptors (final_world (detect_external_drives h w)) p = Some (Document (JObj data))
     \<and> descriptors (final_world (detect_external_drives h'
          (final_world (detect_external_drives h w)))) p = Some (Document (JObj data))
     \<and> (p = join drive ''drive.json'' \<longrightarrow>
          (\<exists>w'. detect_drive h drive valid w =
                  Inr (if map_of data ''source'' = Some (JBool True)
                       then valid @ [\<lparr>drive_path = drive, drive_id = lookup data ''id'',
                                       drive_name = lookup data ''name'', drive_json = data\<rparr>]
                       else valid, w')
              \<and> descriptors w' = descriptors w
              \<and> uuids_drawn w' = uuids_drawn w \<and> randoms_drawn w' = randoms_drawn w))"
proof -
  let ?I = "\<lambda>ds. ds p = Some (Document (JObj data))"
  have step: "?I (descriptors (final_world (detect_drive h0 drive valid w0)))"
    if "?I (descriptors w0)" for h0 drive valid w0
    using that assms(2,3) by (rule detect_drive_keeps_baptized)
  have once: "?I (descriptors (final_world (detect_external_drives h0 w0)))"
    if "?I (descriptors w0)" for h0 w0
    by (rule detect_external_drives_invariant [where I = ?I and h = h0], rule step)
       (simp_all add: that)
  have one: "?I (descriptors (final_world (detect_external_drives h w)))"
    by (rule once) (rule assms(1))
  have two: "?I (descriptors (final_world (detect_external_drives h'
          (final_world (detect_external_drives h w)))))"
    by (rule once) (rule one)
  from one two detect_drive_baptized [of w drive data h valid] assms show ?thesis
    by blast
qed

text \<open>On a host where every descriptor write would truncate the file, a baptized
  descriptor is still intact after discovery.\<close>

theorem C4_idempotent_provisioning_witness:
  "descriptors
     (final_world (detect_external_drives (example_host\<lparr>json_write_fault := \<lambda>p. Some (WriteFails ''ENOSPC'' 0)\<rparr>)
        (plug [CHR ''E'', colon, sep]
           [(''source'', JBool True), (''id'', JStr ''7f3a''), (''name'', JStr ''Blue Fox'')]
           initial_world)))
     (join [CHR ''E'', colon, sep] ''drive.json'') =
   Some (Document (JObj [(''source'', JBool True), (''id'', JStr ''7f3a''), (''name'', JStr ''Blue Fox'')]))"
proof -
  let ?data = "[(''source'', JBool True), (''id'', JStr ''7f3a''), (''name'', JStr ''Blue Fox'')]"
  let ?w = "plug [CHR ''E'', colon, sep] ?data initial_world"
  have d: "descriptors ?w (join [CHR ''E'', colon, sep] ''drive.json'') = Some (Document (JObj ?data))"
    by (simp add: plug_def)
  have i: "''id'' \<in> fst ` set ?data" and n: "''name'' \<in> fst ` set ?data" by simp_all
  from C4_idempotent_provisioning [OF d i n] show ?thesis by blast
qed

lemma returned_detect_loop_Cons:
  "returned_drives (detect_loop h (drive # drives) valid w) =
     (case detect_drive h drive valid w of
        Inl failure \<Rightarrow> []
      | Inr (valid', w') \<Rightarrow> returned_drives (detect_loop h drives valid' w'))"
  by (simp add: returned_drives_def split: sum.splits prod.splits)

lemma returned_drives_Inl: "returned_drives (Inl failure) = []"
  by (cases failure) (simp add: returned_drives_def)

lemma detect_loop_gate:
  assumes "descriptors w (join drive ''drive.json'') = Some (Document (JObj data))"
    and src: "map_of data ''source'' \<noteq> Some (JBool True)"
    and "drive \<notin> drive_path ` set valid"
  shows "drive \<notin> drive_path ` set (returned_drives (detect_loop h drives valid w))"
  using assms(1,3)
proof (induction drives arbitrary: valid w)
  case Nil
  then show ?case by (simp add: returned_drives_def)
next
  case (Cons d drives)
  show ?case
  proof (cases "detect_drive h d valid w")
    case (Inl failure)
    then show ?thesis by (simp add: returned_drives_Inl)
  next
    case (Inr r)
    obtain valid' w' where r: "r = (valid', w')" by (cases r)
    with Inr have run: "detect_drive h d valid w = Inr (valid', w')" by simp
    have keep: "descriptors w' (join drive ''drive.json'') = Some (Document (JObj data))"
    proof (cases "join drive ''drive.json'' = join d ''drive.json''")
      case True
      with detect_drive_not_source [of w d data h valid] Cons.prems(1) src run
      show ?thesis by auto
    next
      case False
      from detect_drive_frame [OF False, of h valid w] run Cons.prems(1)
      show ?thesis by (simp add: final_world_def)
    qed
    have "drive \<notin> drive_path ` set valid'"
      using detect_drive_returns [OF run] Cons.prems src by auto
    from Cons.IH [OF keep this] run show ?thesis
      by (simp add: returned_detect_loop_Cons)
  qed
qed

lemma detect_loop_source_true:
  assumes "list_all (\<lambda>e. map_of (drive_json e) ''source'' = Some (JBool True)) valid"
  shows "list_all (\<lambda>e. map_of (drive_json e) ''source'' = Some (JBool True))
           (returned_drives (detect_loop h drives valid w))"
  using assms
proof (induction drives arbitrary: valid w)
  case Nil
  then show ?case by (simp add: returned_drives_def)
next
  case (Cons d drives)
  show ?case
  proof (cases "detect_drive h d valid w")
    case (Inl failure)
    then show ?thesis by (simp add: returned_drives_Inl)
  next
    case (Inr r)
    obtain valid' w' where r: "r = (valid', w')" by (cases r)
    with Inr have run: "detect_drive h d valid w = Inr (valid', w')" by simp
    have "list_all (\<lambda>e. map_of (drive_json e) ''source'' = Some (JBool True)) valid'"
      using detect_drive_returns [OF run] Cons.prems by auto
    from Cons.IH [OF this] run show ?thesis
      by (simp add: returned_detect_loop_Cons)
  qed
qed

text \<open>
  C5. A volume whose descriptor is an object in which \<^verbatim>\<open>source\<close> is absent or is
  anything but the Boolean \<^verbatim>\<open>true\<close> is not among the drives discovery returns,
  whatever else the descriptor holds; every drive that is returned has
  \<^verbatim>\<open>source\<close> equal to \<^verbatim>\<open>true\<close>.
\<close>

theorem C5_eligibility_gate:
  assumes "descriptors w (join drive ''drive.json'') = Some (Document (JObj data))"
    and "map_of data ''source'' \<noteq> Some (JBool True)"
  shows "drive \<notin> drive_path ` set (returned_drives (detect_external_drives h w))
     \<and> list_all (\<lambda>e. map_of (drive_json e) ''source'' = Some (JBool True))
          (returned_drives (detect_external_drives h w))"
  unfolding detect_external_drives_def Let_def
  by (intro conjI detect_loop_gate [of _ _ data] detect_loop_source_true)
     (simp_all add: assms)

lemma removable_example: "removable_drives example_host = [[CHR ''E'', colon, sep]]"
  by (simp add: removable_drives_def example_host_def quiet_host_def ascii_uppercase_def
        colon_def sep_def)

lemma two_drives:
  "map drive_path (returned_drives (detect_external_drives two_drive_host
        (plug [CHR ''F'', colon, sep]
           [(''source'', JBool True), (''id'', JStr ''91c0''), (''name'', JStr ''Quiet Wolf'')]
        (plug [CHR ''E'', colon, sep]
           [(''source'', JStr ''true''), (''id'', JStr ''7f3a''), (''name'', JStr ''Blue Fox'')]
           initial_world)))) = [[CHR ''F'', colon, sep]]"
proof -
  have r: "removable_drives two_drive_host = [[CHR ''E'', colon, sep], [CHR ''F'', colon, sep]]"
    by (simp add: removable_drives_def two_drive_host_def quiet_host_def ascii_uppercase_def
        colon_def sep_def)
  show ?thesis
    unfolding detect_external_drives_def r
    by (simp add: detect_drive_def Let_def
        plug_def initial_world_def write_console_def join_def sep_def colon_def altsep_def
        baptize_def two_drive_host_def quiet_host_def lookup_def returned_drives_def)
qed

text \<open>With \<^verbatim>\<open>E:\<close> carrying \<^verbatim>\<open>"source": "true"\<close> (a string) and \<^verbatim>\<open>F:\<close> carrying
  \<^verbatim>\<open>"source": true\<close>, discovery returns \<^verbatim>\<open>F:\<close> alone.\<close>

theorem C5_eligibility_gate_witness:
  "map_of [(''source'', JStr ''true''), (''id'', JStr ''7f3a''), (''name'', JStr ''Blue Fox'')] ''source''
     \<noteq> Some (JBool True)
   \<and> map drive_path (returned_drives (detect_external_drives two_drive_host
        (plug [CHR ''F'', colon, sep]
           [(''source'', JBool True), (''id'', JStr ''91c0''), (''name'', JStr ''Quiet Wolf'')]
        (plug [CHR ''E'', colon, sep]
           [(''source'', JStr ''true''), (''id'', JStr ''7f3a''), (''name'', JStr ''Blue Fox'')]
           initial_world)))) = [[CHR ''F'', colon, sep]]
   \<and> [CHR ''E'', colon, sep] \<notin> drive_path ` set (returned_drives (detect_external_drives two_drive_host
        (plug [CHR ''F'', colon, sep]
           [(''source'', JBool True), (''id'', JStr ''91c0''), (''name'', JStr ''Quiet Wolf'')]
        (plug [CHR ''E'', colon, sep]
           [(''source'', JStr ''true''), (''id'', JStr ''7f3a''), (''name'', JStr ''Blue Fox'')]
           initial_world))))"
proof -
  let ?data = "[(''source'', JStr ''true''), (''id'', JStr ''7f3a''), (''name'', JStr ''Blue Fox'')]"
  let ?w = "plug [CHR ''F'', colon, sep]
           [(''source'', JBool True), (''id'', JStr ''91c0''), (''name'', JStr ''Quiet Wolf'')]
        (plug [CHR ''E'', colon, sep] ?data initial_world)"
  have d: "descriptors ?w (join [CHR ''E'', colon, sep] ''drive.json'') = Some (Document (JObj ?data))"
    by (simp add: plug_def join_def sep_def colon_def)
  have s: "map_of ?data ''source'' \<noteq> Some (JBool True)" by simp
  from C5_eligibility_gate [OF d s, of two_drive_host] s two_drives show ?thesis by blast
qed

lemma detect_drive_rewrite:
  assumes d: "descriptors w (join drive ''drive.json'') = Some (Document (JObj data))"
    and nf: "json_write_fault h (join drive ''drive.json'') = None"
  shows "\<exists>added. descriptors (final_world (detect_drive h drive valid w)) (join drive ''drive.json'')
                    = Some (Document (JObj (data @ added)))
           \<and> set (map fst added) =
               (if map_of data ''source'' = Some (JBool True)
                then {''id'', ''name''} - fst ` set data else {})
           \<and> distinct (map fst added)"
proof (cases "map_of data ''source'' = Some (JBool True)")
  case False
  from detect_drive_not_source [OF d False, of h valid] d False
  have "descriptors (final_world (detect_drive h drive valid w)) (join drive ''drive.json'')
          = Some (Document (JObj (data @ [])))"
    by (auto simp: final_world_def)
  with False show ?thesis by (intro exI [of _ "[]"]) simp
next
  case True
  from detect_drive_source [OF d True, of h valid]
  obtain data' updated w3 where
    b: "baptize h data (write_console [S ''drive.json found''] ''OK'' 2
        (write_console [S ''Found drive: '', S drive] ''INFO'' 1 w)) = (data', updated, w3)"
    and r: "detect_drive h drive valid w =
      (let baptized = [V (lookup data' ''name''), S '' ('', V (lookup data' ''id''), S '')''];
           entry = \<lparr>drive_path = drive, drive_id = lookup data' ''id'',
                    drive_name = lookup data' ''name'', drive_json = data'\<rparr>
       in if updated then
            (case dump_descriptor h (join drive ''drive.json'') (JObj data') w3 of
               (None, w4) \<Rightarrow>
                 Inr (valid @ [entry],
                      write_console (S ''Drive baptized as: '' # baptized) ''OK'' 2 w4)
             | (Some e, w4) \<Rightarrow>
                 Inr (valid,
                      write_console [S ''Failed to write updated drive.json: '', S e]
                        ''ERROR'' 2 w4))
          else
            Inr (valid @ [entry],
                 write_console (S ''Drive already baptized: '' # baptized) ''INFO'' 2 w3))"
    by blast
  from baptize_appends [OF b] obtain added where
    a: "data' = data @ added" "set (map fst added) = {''id'', ''name''} - fst ` set data"
      "distinct (map fst added)" "updated \<longleftrightarrow> added \<noteq> []"
    by blast
  have w3: "descriptors w3 = descriptors w" using baptize_world(1) [OF b] by simp
  have "descriptors (final_world (detect_drive h drive valid w)) (join drive ''drive.json'')
          = Some (Document (JObj (data @ added)))"
  proof (cases updated)
    case True
    then show ?thesis
      unfolding r by (simp add: Let_def dump_descriptor_ok [OF nf] final_world_def a(1))
  next
    case False
    with a(4) have "added = []" by simp
    with False show ?thesis
      unfolding r by (simp add: Let_def final_world_def w3 d)
  qed
  with a(2,3) True show ?thesis by auto
qed

lemma added_onto:
  assumes "set (map fst added) \<subseteq> {''id'', ''name''} - fst ` set data" "distinct (map fst added)"
    and "set (map fst added') \<subseteq> {''id'', ''name''} - fst ` set (data @ added)"
      "distinct (map fst added')"
  shows "set (map fst (added @ added')) \<subseteq> {''id'', ''name''} - fst ` set data"
    "distinct (map fst (added @ added'))"
proof -
  from assms(1,3) show "set (map fst (added @ added')) \<subseteq> {''id'', ''name''} - fst ` set data"
    by (simp add: image_Un) blast
  from assms(3) have "set (map fst added) \<inter> set (map fst added') = {}"
    by (simp add: image_Un) blast
  with assms(2,4) show "distinct (map fst (added @ added'))" by simp
qed

lemma detect_drive_rewrite_sub:
  assumes "descriptors w (join drive ''drive.json'') = Some (Document (JObj data))"
    and "json_write_fault h (join drive ''drive.json'') = None"
  shows "\<exists>added. descriptors (final_world (detect_drive h drive valid w)) (join drive ''drive.json'')
                    = Some (Document (JObj (data @ added)))
           \<and> set (map fst added) \<subseteq> {''id'', ''name''} - fst ` set data
           \<and> distinct (map fst added)"
proof -
  from detect_drive_rewrite [OF assms, of valid] obtain added where
    a: "descriptors (final_world (detect_drive h drive valid w)) (join drive ''drive.json'')
          = Some (Document (JObj (data @ added)))"
      "set (map fst added) =
         (if map_of data ''source'' = Some (JBool True)
          then {''id'', ''name''} - fst ` set data else {})"
      "distinct (map fst added)"
    by blast
  from a(2) have "set (map fst added) \<subseteq> {''id'', ''name''} - fst ` set data"
    by (simp split: if_splits)
  with a(1,3) show ?thesis by (intro exI [of _ added]) simp
qed

lemma map_of_append_present:
  assumes "k \<in> fst ` set data"
  shows "map_of (data @ added) k = map_of data k"
proof -
  from assms have "map_of data k \<noteq> None" by (simp add: map_of_eq_None_iff)
  then obtain v where "map_of data k = Some v" by (cases "map_of data k") simp_all
  then show ?thesis by (simp add: map_of_append)
qed

lemma rewrite_invariant_step:
  assumes nf: "\<forall>q. json_write_fault h q = None"
    and inv: "\<exists>added. descriptors w0 p = Some (Document (JObj (data @ added)))
                \<and> set (map fst added) \<subseteq> {''id'', ''name''} - fst ` set data
                \<and> distinct (map fst added)"
  shows "\<exists>added. descriptors (final_world (detect_drive h d valid0 w0)) p =
                    Some (Document (JObj (data @ added)))
                \<and> set (map fst added) \<subseteq> {''id'', ''name''} - fst ` set data
                \<and> distinct (map fst added)"
proof (cases "p = join d ''drive.json''")
  case False
  with inv show ?thesis by (simp add: detect_drive_frame)
next
  case True
  from inv obtain added where
    a: "descriptors w0 p = Some (Document (JObj (data @ added)))"
      "set (map fst added) \<subseteq> {''id'', ''name''} - fst ` set data" "distinct (map fst added)"
    by blast
  from nf have nf': "json_write_fault h (join d ''drive.json'') = None" by simp
  from a(1) True have a1: "descriptors w0 (join d ''drive.json'') = Some (Document (JObj (data @ added)))"
    by simp
  from detect_drive_rewrite_sub [OF a1 nf', of valid0]
  obtain added' where
    a': "descriptors (final_world (detect_drive h d valid0 w0)) (join d ''drive.json'') =
           Some (Document (JObj ((data @ added) @ added')))"
      "set (map fst added') \<subseteq> {''id'', ''name''} - fst ` set (data @ added)"
      "distinct (map fst added')"
    by blast
  from a'(1) True have "descriptors (final_world (detect_drive h d valid0 w0)) p =
           Some (Document (JObj (data @ (added @ added'))))" by simp
  with added_onto [OF a(2,3) a'(2,3)] show ?thesis
    by (intro exI [of _ "added @ added'"] conjI)
qed

text \<open>
  C8. Where no write fails, the descriptor file after discovery holds the original
  object with fields appended at its end: the original keys keep their values and
  their order, and the appended keys are among \<^verbatim>\<open>id\<close> and \<^verbatim>\<open>name\<close> and were
  missing. After the round that handles the drive, the appended keys are exactly the
  missing ones of \<^verbatim>\<open>id\<close> and \<^verbatim>\<open>name\<close> when the drive is eligible, and none
  otherwise.
\<close>

theorem C8_rewrite_preserves_fields:
  assumes "descriptors w p = Some (Document (JObj data))"
    and "\<forall>q. json_write_fault h q = None"
  shows "(\<exists>added. descriptors (final_world (detect_external_drives h w)) p =
                     Some (Document (JObj (data @ added)))
                \<and> set (map fst added) \<subseteq> {''id'', ''name''} - fst ` set data
                \<and> distinct (map fst added)
                \<and> (\<forall>k\<in>fst ` set data. map_of (data @ added) k = map_of data k))
       \<and> (p = join drive ''drive.json'' \<longrightarrow>
           (\<exists>added. descriptors (final_world (detect_drive h drive valid w)) p =
                       Some (Document (JObj (data @ added)))
                  \<and> set (map fst added) =
                      (if map_of data ''source'' = Some (JBool True)
                       then {''id'', ''name''} - fst ` set data else {})
                  \<and> distinct (map fst added)))"
proof (intro conjI impI)
  let ?I = "\<lambda>ds. \<exists>added. ds p = Some (Document (JObj (data @ added)))
                \<and> set (map fst added) \<subseteq> {''id'', ''name''} - fst ` set data
                \<and> distinct (map fst added)"
  have step: "?I (descriptors (final_world (detect_drive h d valid0 w0)))"
    if "?I (descriptors w0)" for d valid0 w0
    using assms(2) that by (rule rewrite_invariant_step)
  have start: "?I (descriptors w)" using assms(1) by (intro exI [of _ "[]"]) simp
  have "?I (descriptors (final_world (detect_external_drives h w)))"
    by (rule detect_external_drives_invariant [where I = ?I and h = h], rule step)
       (simp_all only: start)
  then obtain added where
    a: "descriptors (final_world (detect_external_drives h w)) p =
          Some (Document (JObj (data @ added)))"
      "set (map fst added) \<subseteq> {''id'', ''name''} - fst ` set data" "distinct (map fst added)"
    by blast
  show "\<exists>added. descriptors (final_world (detect_external_drives h w)) p =
                     Some (Document (JObj (data @ added)))
                \<and> set (map fst added) \<subseteq> {''id'', ''name''} - fst ` set data
                \<and> distinct (map fst added)
                \<and> (\<forall>k\<in>fst ` set data. map_of (data @ added) k = map_of data k)"
    by (intro exI [of _ added] conjI ballI a map_of_append_present)
next
  assume p: "p = join drive ''drive.json''"
  from assms(2) have nf: "json_write_fault h (join drive ''drive.json'') = None" by simp
  from detect_drive_rewrite [OF assms(1) [unfolded p] nf, of valid]
  show "\<exists>added. descriptors (final_world (detect_drive h drive valid w)) p =
                       Some (Document (JObj (data @ added)))
                  \<and> set (map fst added) =
                      (if map_of data ''source'' = Some (JBool True)
                       then {''id'', ''name''} - fst ` set data else {})
                  \<and> distinct (map fst added)"
    unfolding p .
qed

text \<open>The unrecognized field \<^verbatim>\<open>label\<close> and the two recognized ones are kept, in
  place; \<^verbatim>\<open>id\<close> and \<^verbatim>\<open>name\<close> are appended.\<close>

theorem C8_rewrite_preserves_fields_witness:
  "descriptors (final_world (detect_external_drives example_host
     (plug [CHR ''E'', colon, sep]
        [(''source'', JBool True), (''purge'', JBool True), (''label'', JStr ''cam'')]
        initial_world))) (join [CHR ''E'', colon, sep] ''drive.json'') =
   Some (Document (JObj ([(''source'', JBool True), (''purge'', JBool True), (''label'', JStr ''cam'')] @
     [(''id'', JStr ''00000000-0000-4000-8000-000000000000''), (''name'', JStr ''Silver Goose'')])))"
proof -
  let ?data = "[(''source'', JBool True), (''purge'', JBool True), (''label'', JStr ''cam'')]"
  let ?w = "plug [CHR ''E'', colon, sep] ?data initial_world"
  have d: "descriptors ?w (join [CHR ''E'', colon, sep] ''drive.json'') = Some (Document (JObj ?data))"
    by (simp add: plug_def)
  have nf: "\<forall>q. json_write_fault example_host q = None"
    by (simp add: example_host_def quiet_host_def)
  have run: "descriptors (final_world (detect_external_drives example_host ?w))
       (join [CHR ''E'', colon, sep] ''drive.json'') =
     Some (Document (JObj (?data @
       [(''id'', JStr ''00000000-0000-4000-8000-000000000000''), (''name'', JStr ''Silver Goose'')])))"
    unfolding detect_external_drives_def removable_example
    by (simp add: detect_drive_def Let_def
        plug_def initial_world_def write_console_def join_def sep_def colon_def altsep_def
        baptize_def uuid4_def generate_human_name_def choice_def adjectives_def animals_def
        dump_descriptor_def example_host_def quiet_host_def lookup_def final_world_def)
  from C8_rewrite_preserves_fields [OF d nf] run show ?thesis by blast
qed

subsection \<open>The deletion loop\<close>






lemma delete_folders_append:
  "delete_folders h n i (xs @ ys) w =
     delete_folders h n (i + length xs) ys (delete_folders h n i xs w)"
  by (induction xs arbitrary: i w) simp_all















subsection \<open>The checkpoint before deletion\<close>
























end
